theory Spec2Isabelle
  imports Complex_Main
begin

section \<open>JavaScript numbers\<close>

text \<open>
  Every value of the calculator is a JavaScript \<^verbatim>\<open>number\<close>, an IEEE 754 binary64
  value. A finite binary64 value is a rational, and each arithmetic operator returns the
  exact result rounded to the nearest value with a 53-bit significand, ties to the even
  significand. The model keeps that rounding, so a product such as \<^verbatim>\<open>50 * 1.15\<close>
  is the double just below 57.5, as it is for the program. The exponent range is not
  bounded here: overflow to Infinity, NaN and subnormal results lie outside the model
  (they need magnitudes above \<open>2^1023\<close> or below \<open>2^-1022\<close>).
\<close>

type_synonym number = rat

definition round_half_even :: "rat \<Rightarrow> int" where
  "round_half_even x =
     (let n = \<lfloor>x\<rfloor>; r = x - of_int n in
      if r < 1 / 2 then n else if 1 / 2 < r then n + 1 else if even n then n else n + 1)"

text \<open>The number of binary digits of a positive integer.\<close>

function bitlen :: "int \<Rightarrow> nat" where
  "bitlen n = (if n \<le> 0 then 0 else Suc (bitlen (n div 2)))"
  by pat_completeness auto
termination
  by (relation "measure nat") auto

declare bitlen.simps [simp del]

text \<open>For \<open>x > 0\<close>, \<open>exponent x\<close> is the \<open>e\<close> with \<open>2^e \<le> x < 2^(e+1)\<close>.\<close>

definition exponent :: "rat \<Rightarrow> int" where
  "exponent x =
     (if 1 \<le> x then int (bitlen \<lfloor>x\<rfloor>) - 1
      else - int (bitlen (\<lceil>1 / x\<rceil> - 1)))"

text \<open>The spacing of the doubles in the binade of \<open>x\<close>.\<close>

definition ulp :: "rat \<Rightarrow> rat" where
  "ulp x = 2 powi (exponent \<bar>x\<bar> - 52)"

definition to_double :: "rat \<Rightarrow> number" where
  "to_double x =
     (if x = 0 then 0 else let u = ulp x in of_int (round_half_even (x / u)) * u)"

text \<open>
  A decimal literal of the source denotes the double nearest to it. Integer literals
  (\<^verbatim>\<open>10\<close>, \<^verbatim>\<open>5\<close>, \<^verbatim>\<open>161\<close>, ...) are doubles already and are written as numerals.
\<close>

definition lit :: "rat \<Rightarrow> number" where
  "lit x = to_double x"

definition num_add :: "number \<Rightarrow> number \<Rightarrow> number" where
  "num_add a b = to_double (a + b)"

definition num_sub :: "number \<Rightarrow> number \<Rightarrow> number" where
  "num_sub a b = to_double (a - b)"

definition num_mul :: "number \<Rightarrow> number \<Rightarrow> number" where
  "num_mul a b = to_double (a * b)"

text \<open>The source divides by the literals 9 and 4 only; a zero divisor does not occur.\<close>

definition num_div :: "number \<Rightarrow> number \<Rightarrow> number" where
  "num_div a b = to_double (a / b)"

text \<open>
  \<^verbatim>\<open>Math.round\<close> returns the integer nearest to its argument and, of two equally
  near, the one closer to plus infinity. The result of rounding a double is a double,
  so no second rounding happens.
\<close>

definition Math_round :: "number \<Rightarrow> number" where
  "Math_round x = of_int \<lfloor>x + 1 / 2\<rfloor>"

section \<open>The calculator\<close>

datatype gender = male | female

datatype activity_level =
  sedentary | lightly_active | moderately_active | very_active | extra_active

text \<open>
  The goal selector of \<^verbatim>\<open>getGoalCalories\<close>: the string literals \<^verbatim>\<open>'cut'\<close>,
  \<^verbatim>\<open>'bulk'\<close> and \<^verbatim>\<open>'maintain'\<close>, capitalised to keep them apart from the locals
  \<^verbatim>\<open>cut\<close> and \<^verbatim>\<open>bulk\<close> of \<^verbatim>\<open>calculateCalories\<close>.
\<close>

datatype goalType = Cut | Bulk | Maintain

record UserDetails =
  height :: number
  weight :: number
  age :: number
  gender :: gender
  activity_level :: activity_level

record CalorieResults =
  maintenance_calories :: number
  cut_calories :: number
  bulk_calories :: number
  protein_grams :: number
  carbs_grams :: number
  fat_grams :: number

record GoalCalorieResult =
  calories :: number
  protein :: number
  carbs :: number
  fat :: number

fun ACTIVITY_MULTIPLIERS :: "activity_level \<Rightarrow> number" where
  "ACTIVITY_MULTIPLIERS sedentary = lit (12 / 10)"
| "ACTIVITY_MULTIPLIERS lightly_active = lit (1375 / 1000)"
| "ACTIVITY_MULTIPLIERS moderately_active = lit (155 / 100)"
| "ACTIVITY_MULTIPLIERS very_active = lit (1725 / 1000)"
| "ACTIVITY_MULTIPLIERS extra_active = lit (19 / 10)"

definition calculateBMR :: "number \<Rightarrow> number \<Rightarrow> number \<Rightarrow> gender \<Rightarrow> number" where
  "calculateBMR w h a g =
     (if g = male
      then num_add (num_sub (num_add (num_mul 10 w) (num_mul (lit (625 / 100)) h)) (num_mul 5 a)) 5
      else num_sub (num_sub (num_add (num_mul 10 w) (num_mul (lit (625 / 100)) h)) (num_mul 5 a)) 161)"

text \<open>
  A caller may pass an object with more properties than the five of \<^verbatim>\<open>UserDetails\<close>
  (the interface is structural), so the argument is any extension of the record.
\<close>

definition calculateCalories :: "'a UserDetails_scheme \<Rightarrow> CalorieResults" where
  "calculateCalories details =
     (let bmr = calculateBMR (weight details) (height details) (age details) (gender details);
          maintenance = Math_round (num_mul bmr (ACTIVITY_MULTIPLIERS (activity_level details)));
          cut = Math_round (num_mul maintenance (lit (8 / 10)));
          bulk = Math_round (num_mul maintenance (lit (115 / 100)));
          protein = Math_round (num_mul (weight details) 2);
          fatCalories = Math_round (num_mul maintenance (lit (25 / 100)));
          fat = Math_round (num_div fatCalories 9);
          proteinCalories = num_mul protein 4;
          carbCalories = num_sub (num_sub maintenance proteinCalories) fatCalories;
          carbs = Math_round (num_div carbCalories 4)
      in \<lparr>maintenance_calories = maintenance,
          cut_calories = cut,
          bulk_calories = bulk,
          protein_grams = protein,
          carbs_grams = carbs,
          fat_grams = fat\<rparr>)"

definition getGoalCalories :: "number \<Rightarrow> goalType \<Rightarrow> GoalCalorieResult" where
  "getGoalCalories maintenance goal =
     (let targetCalories =
            (if goal = Cut then Math_round (num_mul maintenance (lit (8 / 10)))
             else if goal = Bulk then Math_round (num_mul maintenance (lit (115 / 100)))
             else maintenance);
          protein = Math_round (num_div (num_mul targetCalories (lit (3 / 10))) 4);
          fat = Math_round (num_div (num_mul targetCalories (lit (25 / 100))) 9);
          carbs = Math_round (num_div (num_mul targetCalories (lit (45 / 100))) 4)
      in \<lparr>calories = targetCalories, protein = protein, carbs = carbs, fat = fat\<rparr>)"

text \<open>
  The ranges the form page enforces before it calls the calculator
  (height 100 to 250, weight 30 to 300, age 13 to 100).
\<close>

definition valid_details :: "'a UserDetails_scheme \<Rightarrow> bool" where
  "valid_details d \<longleftrightarrow>
     100 \<le> height d \<and> height d \<le> 250 \<and> 30 \<le> weight d \<and> weight d \<le> 300 \<and>
     13 \<le> age d \<and> age d \<le> 100"

section \<open>Rounding to a double\<close>

lemma round_half_even_bounds:
  "\<lfloor>x\<rfloor> \<le> round_half_even x" "round_half_even x \<le> \<lfloor>x\<rfloor> + 1"
  by (simp_all add: round_half_even_def Let_def)

lemma round_half_even_of_int [simp]: "round_half_even (of_int n) = n"
  by (simp add: round_half_even_def)

lemma round_half_even_mono:
  assumes "x \<le> y"
  shows "round_half_even x \<le> round_half_even y"
proof (cases "\<lfloor>x\<rfloor> = \<lfloor>y\<rfloor>")
  case True
  with assms show ?thesis
    by (auto simp add: round_half_even_def Let_def)
next
  case False
  with assms have "\<lfloor>x\<rfloor> + 1 \<le> \<lfloor>y\<rfloor>"
    using floor_mono [of x y] by linarith
  with round_half_even_bounds(2) [of x] round_half_even_bounds(1) [of y]
  show ?thesis by linarith
qed


lemma round_half_even_minus: "round_half_even (- x) = - round_half_even x"
proof (cases "x \<in> \<int>")
  case True
  then obtain n where "x = of_int n" by (auto elim: Ints_cases)
  then have "round_half_even (- x) = round_half_even (of_int (- n))" by simp
  then show ?thesis using \<open>x = of_int n\<close>
    by (simp only: round_half_even_of_int)
next
  case False
  then have "x \<noteq> of_int \<lfloor>x\<rfloor>"
    by (metis Ints_of_int)
  then have fl: "\<lfloor>- x\<rfloor> = - \<lfloor>x\<rfloor> - 1"
    by (simp add: floor_minus ceiling_altdef)
  have "x - of_int \<lfloor>x\<rfloor> < 1" "0 \<le> x - of_int \<lfloor>x\<rfloor>" by linarith+
  then show ?thesis
    unfolding round_half_even_def Let_def fl
    by (auto simp add: algebra_simps)
qed

lemma bitlen_bounds:
  "0 < n \<Longrightarrow> 2 ^ (bitlen n - 1) \<le> n \<and> n < 2 ^ bitlen n"
proof (induction n rule: bitlen.induct)
  case (1 n)
  show ?case
  proof (cases "n div 2 \<le> 0")
    case True
    with "1.prems" have "n = 1" by linarith
    then show ?thesis by (simp add: bitlen.simps [of 1] bitlen.simps [of 0])
  next
    case False
    then have q: "0 < n div 2" by simp
    from "1.prems" have b: "bitlen n = Suc (bitlen (n div 2))"
      by (simp add: bitlen.simps [of n])
    from "1.IH" "1.prems" q
    have ih: "2 ^ (bitlen (n div 2) - 1) \<le> n div 2" "n div 2 < 2 ^ bitlen (n div 2)"
      by simp_all
    have pos: "0 < bitlen (n div 2)"
      using q by (simp add: bitlen.simps [of "n div 2"])
    then have "(2::int) ^ bitlen (n div 2) = 2 * 2 ^ (bitlen (n div 2) - 1)"
      by (cases "bitlen (n div 2)") simp_all
    with ih show ?thesis unfolding b by (simp, linarith)
  qed
qed

lemma bitlen_rat_bounds:
  assumes "0 < n"
  shows "(2::rat) ^ (bitlen n - 1) \<le> of_int n" and "of_int n + 1 \<le> (2::rat) ^ bitlen n"
    and "0 < bitlen n"
proof -
  have b: "2 ^ (bitlen n - 1) \<le> n" "n + 1 \<le> 2 ^ bitlen n"
    using bitlen_bounds [OF assms] by simp_all
  from b(1) have "rat_of_int (2 ^ (bitlen n - 1)) \<le> of_int n"
    by (simp only: of_int_le_iff)
  then show "(2::rat) ^ (bitlen n - 1) \<le> of_int n" by simp
  from b(2) have "rat_of_int (n + 1) \<le> of_int (2 ^ bitlen n)"
    by (simp only: of_int_le_iff)
  then show "of_int n + 1 \<le> (2::rat) ^ bitlen n" by simp
  show "0 < bitlen n"
    using assms by (simp add: bitlen.simps [of n])
qed

lemma exponent_ge_one:
  assumes "1 \<le> x"
  shows "2 powi exponent x \<le> x \<and> x < 2 powi (exponent x + 1)"
proof -
  define n where "n = \<lfloor>x\<rfloor>"
  have n0: "0 < n" using assms unfolding n_def by linarith
  have n: "of_int n \<le> x" "x < of_int n + 1" unfolding n_def by linarith+
  define k where "k = bitlen n"
  note b = bitlen_rat_bounds [OF n0, folded k_def]
  have e: "exponent x = int (k - 1)"
    using assms b(3) by (simp add: exponent_def k_def n_def)
  have e1: "exponent x + 1 = int k"
    using b(3) unfolding e by simp
  show ?thesis
    unfolding e1 unfolding e power_int_of_nat using n b(1,2) by linarith
qed

lemma exponent_less_one:
  assumes "0 < x" "x < 1"
  shows "2 powi exponent x \<le> x \<and> x < 2 powi (exponent x + 1)"
proof -
  have inv: "1 < 1 / x" using assms by simp
  define n where "n = \<lceil>1 / x\<rceil> - 1"
  have c: "1 < \<lceil>1 / x\<rceil>" using inv by (simp add: less_ceiling_iff)
  then have n0: "0 < n" unfolding n_def by linarith
  have n: "of_int n < 1 / x" "1 / x \<le> of_int n + 1" unfolding n_def by linarith+
  define k where "k = bitlen n"
  note b = bitlen_rat_bounds [OF n0, folded k_def]
  have e: "exponent x = - int k"
    using assms by (simp add: exponent_def k_def n_def)
  have e1: "exponent x + 1 = - int (k - 1)"
    using b(3) unfolding e by simp
  have up: "(2::rat) ^ (k - 1) < 1 / x" using b(1) n(1) by linarith
  have lo: "1 / x \<le> (2::rat) ^ k" using b(2) n(2) by linarith
  have p1: "(0::rat) < 2 ^ (k - 1)" and p2: "(0::rat) < 2 ^ k" by simp_all
  have "x < 1 / 2 ^ (k - 1)"
    using up assms(1) p1 by (simp add: field_simps)
  moreover have "1 / 2 ^ k \<le> x"
    using lo assms(1) p2 by (simp add: field_simps)
  ultimately show ?thesis
    unfolding e1 unfolding e by (simp add: power_int_minus divide_inverse)
qed

lemma exponent_bounds:
  assumes "0 < x"
  shows "2 powi exponent x \<le> x" and "x < 2 powi (exponent x + 1)"
  using exponent_ge_one [of x] exponent_less_one [of x] assms
  by (cases "1 \<le> x"; simp)+

lemma ulp_pos: "0 < ulp x"
  by (simp add: ulp_def)

lemma ulp_minus: "ulp (- x) = ulp x"
  by (simp add: ulp_def)

lemma to_double_minus: "to_double (- x) = - to_double x"
  by (simp add: to_double_def Let_def ulp_minus round_half_even_minus)

lemma pow2_exponent_ulp:
  "2 powi exponent \<bar>x\<bar> = 2 ^ 52 * ulp x" "2 powi (exponent \<bar>x\<bar> + 1) = 2 ^ 53 * ulp x"
proof -
  have "(2::rat) powi exponent \<bar>x\<bar> = 2 powi (52 + (exponent \<bar>x\<bar> - 52))" by simp
  also have "\<dots> = 2 powi 52 * 2 powi (exponent \<bar>x\<bar> - 52)"
    by (rule power_int_add) simp
  finally show "2 powi exponent \<bar>x\<bar> = 2 ^ 52 * ulp x"
    by (simp add: ulp_def)
  have "exponent \<bar>x\<bar> + 1 = 53 + (exponent \<bar>x\<bar> - 52)" by simp
  then have "(2::rat) powi (exponent \<bar>x\<bar> + 1) = 2 powi (53 + (exponent \<bar>x\<bar> - 52))"
    by (rule arg_cong)
  also have "\<dots> = 2 powi 53 * 2 powi (exponent \<bar>x\<bar> - 52)"
    by (rule power_int_add) simp
  finally show "2 powi (exponent \<bar>x\<bar> + 1) = 2 ^ 53 * ulp x"
    by (simp add: ulp_def)
qed

lemma to_double_pos_bounds:
  assumes "0 < x"
  shows "2 powi exponent x \<le> to_double x" and "to_double x \<le> 2 powi (exponent x + 1)"
proof -
  have ax: "\<bar>x\<bar> = x" using assms by simp
  note p = pow2_exponent_ulp [of x, unfolded ax]
  note u = ulp_pos [of x]
  have "2 ^ 52 * ulp x \<le> x" "x \<le> 2 ^ 53 * ulp x"
    using exponent_bounds [OF assms] p by simp_all
  then have "of_int (2 ^ 52) \<le> x / ulp x" "x / ulp x \<le> of_int (2 ^ 53)"
    using u by (simp_all add: field_simps)
  then have "round_half_even (of_int (2 ^ 52)) \<le> round_half_even (x / ulp x)"
    "round_half_even (x / ulp x) \<le> round_half_even (of_int (2 ^ 53))"
    by (simp_all only: round_half_even_mono)
  then have "2 ^ 52 \<le> round_half_even (x / ulp x)" "round_half_even (x / ulp x) \<le> 2 ^ 53"
    by (simp_all only: round_half_even_of_int)
  then have "rat_of_int (2 ^ 52) \<le> of_int (round_half_even (x / ulp x))"
    "rat_of_int (round_half_even (x / ulp x)) \<le> of_int (2 ^ 53)"
    by (simp_all only: of_int_le_iff)
  then have "2 ^ 52 * ulp x \<le> of_int (round_half_even (x / ulp x)) * ulp x"
    "of_int (round_half_even (x / ulp x)) * ulp x \<le> 2 ^ 53 * ulp x"
    using u by simp_all
  then show "2 powi exponent x \<le> to_double x" and "to_double x \<le> 2 powi (exponent x + 1)"
    using assms by (simp_all add: p to_double_def Let_def)
qed

lemma exponent_mono:
  assumes "0 < x" "x \<le> y"
  shows "exponent x \<le> exponent y"
proof -
  have "(2::rat) powi exponent x < 2 powi (exponent y + 1)"
    using exponent_bounds(1) [of x] exponent_bounds(2) [of y] assms by linarith
  moreover have "(2::rat) powi (exponent y + 1) \<le> 2 powi exponent x"
    if "exponent y + 1 \<le> exponent x"
    using that by (rule power_int_increasing) simp
  ultimately show ?thesis by fastforce
qed

lemma to_double_mono_pos:
  assumes "0 < x" "x \<le> y"
  shows "to_double x \<le> to_double y"
proof (cases "exponent x = exponent y")
  case True
  have y: "0 < y" using assms by simp
  have u: "ulp y = ulp x" using True assms y by (simp add: ulp_def)
  have "x / ulp x \<le> y / ulp x"
    using assms(2) ulp_pos [of x] by (simp add: divide_right_mono)
  then have "round_half_even (x / ulp x) \<le> round_half_even (y / ulp x)"
    by (rule round_half_even_mono)
  then have "rat_of_int (round_half_even (x / ulp x)) \<le> of_int (round_half_even (y / ulp x))"
    by (simp only: of_int_le_iff)
  then have "of_int (round_half_even (x / ulp x)) * ulp x \<le> of_int (round_half_even (y / ulp x)) * ulp x"
    using ulp_pos [of x] by simp
  then show ?thesis
    using assms(1) y by (simp add: to_double_def Let_def u)
next
  case False
  have y: "0 < y" using assms by simp
  from False exponent_mono [OF assms] have "exponent x + 1 \<le> exponent y" by simp
  then have "(2::rat) powi (exponent x + 1) \<le> 2 powi exponent y"
    by (rule power_int_increasing) simp
  with to_double_pos_bounds(2) [OF assms(1)] to_double_pos_bounds(1) [OF y]
  show ?thesis by linarith
qed

lemma to_double_pos:
  assumes "0 < x"
  shows "0 < to_double x"
proof -
  have "(0::rat) < 2 powi exponent x" by (rule zero_less_power_int) simp
  with to_double_pos_bounds(1) [OF assms] show ?thesis by linarith
qed

lemma to_double_mono:
  assumes "x \<le> y"
  shows "to_double x \<le> to_double y"
proof -
  consider "0 < x" | "x = 0" "y = 0" | "x = 0" "0 < y" | "x < 0" "0 \<le> y" | "x < 0" "y < 0"
    using assms by linarith
  then show ?thesis
  proof cases
    case 1
    then show ?thesis using assms by (rule to_double_mono_pos)
  next
    case 2
    then show ?thesis by simp
  next
    case 3
    then show ?thesis using to_double_pos [of y] by (simp add: to_double_def)
  next
    case 4
    have "0 < to_double (- x)" using 4(1) by (simp add: to_double_pos)
    then have "to_double x < 0" by (simp add: to_double_minus)
    moreover have "0 \<le> to_double y"
      using 4(2) to_double_pos [of y] by (cases "y = 0") (simp_all add: to_double_def)
    ultimately show ?thesis by simp
  next
    case 5
    then have "to_double (- y) \<le> to_double (- x)"
      using assms by (intro to_double_mono_pos) simp_all
    then show ?thesis by (simp add: to_double_minus)
  qed
qed

lemma to_double_exact:
  assumes "x / ulp x \<in> \<int>"
  shows "to_double x = x"
proof -
  from assms obtain n where n: "x / ulp x = of_int n" by (auto elim: Ints_cases)
  have "of_int (round_half_even (x / ulp x)) * ulp x = x / ulp x * ulp x"
    unfolding n by simp
  also have "\<dots> = x" using ulp_pos [of x] by simp
  finally show ?thesis by (simp add: to_double_def Let_def)
qed

lemma to_double_of_int:
  assumes "\<bar>n\<bar> < 2 ^ 53"
  shows "to_double (of_int n) = of_int n"
proof (cases "n = 0")
  case True
  then show ?thesis by (simp add: to_double_def)
next
  case False
  define x where "x = rat_of_int n"
  define e where "e = exponent \<bar>x\<bar>"
  have pos: "0 < \<bar>x\<bar>" using False by (simp add: x_def)
  have "\<bar>x\<bar> = of_int \<bar>n\<bar>" by (simp add: x_def)
  also have "\<dots> < of_int (2 ^ 53)" using assms by (simp only: of_int_less_iff)
  finally have lt: "\<bar>x\<bar> < 2 powi 53" by simp
  have "(2::rat) powi 53 \<le> 2 powi e" if "53 \<le> e"
    using that by (rule power_int_increasing) simp
  with exponent_bounds(1) [OF pos] lt have e: "e \<le> 52"
    unfolding e_def by fastforce
  define k where "k = nat (52 - e)"
  have "ulp x = 2 powi (- int k)" using e by (simp add: ulp_def e_def k_def)
  then have u: "ulp x = 1 / 2 ^ k" by (simp add: power_int_minus divide_inverse)
  have "x / ulp x = of_int (n * 2 ^ k)" unfolding u by (simp add: x_def)
  then have "x / ulp x \<in> \<int>" by (simp only: Ints_of_int)
  then show ?thesis unfolding x_def by (rule to_double_exact)
qed


section \<open>Worked values\<close>

text \<open>The literals 6.25 and 0.25 are doubles; the other decimal literals are not.\<close>

lemma lit_exact: "lit (625 / 100) = 25 / 4" "lit (25 / 100) = 1 / 4"
  by code_simp+

text \<open>
  The call \<^verbatim>\<open>calculateCalories({height: 180, weight: 80, age: 30, gender: 'male',
  activity_level: 'moderately_active'})\<close>, one local constant after the other.
\<close>

lemma male_80_180_30_bmr: "calculateBMR 80 180 30 male = 1780"
  by code_simp

lemma male_80_180_30_steps:
  "Math_round (num_mul 1780 (lit (155 / 100))) = 2759"
  "Math_round (num_mul 2759 (lit (8 / 10))) = 2207"
  "Math_round (num_mul 2759 (lit (115 / 100))) = 3173"
  "Math_round (num_mul 80 2) = 160"
  "Math_round (num_mul 2759 (lit (25 / 100))) = 690"
  "Math_round (num_div 690 9) = 77"
  "num_mul 160 4 = 640"
  "num_sub (num_sub 2759 640) 690 = 1429"
  "Math_round (num_div 1429 4) = 357"
  by code_simp+

lemma male_80_180_30_result:
  "calculateCalories \<lparr>height = 180, weight = 80, age = 30, gender = male,
     activity_level = moderately_active\<rparr> =
   \<lparr>maintenance_calories = 2759, cut_calories = 2207, bulk_calories = 3173,
     protein_grams = 160, carbs_grams = 357, fat_grams = 77\<rparr>"
  by (simp only: calculateCalories_def Let_def UserDetails.select_convs
      ACTIVITY_MULTIPLIERS.simps male_80_180_30_bmr male_80_180_30_steps)

text \<open>
  Claim C1, as the specification states it: for 80 kg, 180 cm, 30 years, male,
  moderately active the BMR is 1805 and the result is maintenance 2798, cut 2238,
  bulk 3217, protein 160, carbs 365, fat 78. The program returns other values:
  \<open>6.25 * 180\<close> is 1125, so the BMR is \<open>800 + 1125 - 150 + 5 = 1780\<close>.
\<close>

theorem C1_worked_example_refuted:
  "calculateBMR 80 180 30 male \<noteq> 1805 \<and>
   calculateCalories \<lparr>height = 180, weight = 80, age = 30, gender = male,
     activity_level = moderately_active\<rparr> \<noteq>
   \<lparr>maintenance_calories = 2798, cut_calories = 2238, bulk_calories = 3217,
     protein_grams = 160, carbs_grams = 365, fat_grams = 78\<rparr>"
  by (simp add: male_80_180_30_bmr male_80_180_30_result)

text \<open>
  Claim C1, amended: for that input the BMR is 1780 and \<^verbatim>\<open>calculateCalories\<close>
  returns maintenance 2759, cut 2207, bulk 3173, protein 160, carbs 357 and fat 77,
  where the fat calories are 690 and the carbohydrate calories
  \<open>2759 - 640 - 690 = 1429\<close>.
\<close>

theorem C1_worked_example:
  "calculateBMR 80 180 30 male = 1780 \<and>
   calculateCalories \<lparr>height = 180, weight = 80, age = 30, gender = male,
     activity_level = moderately_active\<rparr> =
   \<lparr>maintenance_calories = 2759, cut_calories = 2207, bulk_calories = 3173,
     protein_grams = 160, carbs_grams = 357, fat_grams = 77\<rparr> \<and>
   Math_round (num_mul 2759 (lit (25 / 100))) = 690 \<and>
   num_sub (num_sub 2759 (num_mul 160 4)) 690 = 1429"
  by (simp only: male_80_180_30_bmr male_80_180_30_result male_80_180_30_steps simp_thms)


text \<open>
  The calls \<^verbatim>\<open>getGoalCalories(2500, 'maintain')\<close>, \<^verbatim>\<open>getGoalCalories(2500, 'cut')\<close>
  and \<^verbatim>\<open>getGoalCalories(2500, 'bulk')\<close>.
\<close>

lemma goal_2500_maintain_steps:
  "Math_round (num_div (num_mul 2500 (lit (3 / 10))) 4) = 188"
  "Math_round (num_div (num_mul 2500 (lit (25 / 100))) 9) = 69"
  "Math_round (num_div (num_mul 2500 (lit (45 / 100))) 4) = 281"
  by code_simp+

lemma goal_2500_cut_steps:
  "Math_round (num_mul 2500 (lit (8 / 10))) = 2000"
  "Math_round (num_div (num_mul 2000 (lit (3 / 10))) 4) = 150"
  "Math_round (num_div (num_mul 2000 (lit (25 / 100))) 9) = 56"
  "Math_round (num_div (num_mul 2000 (lit (45 / 100))) 4) = 225"
  by code_simp+

lemma goal_2500_bulk_steps:
  "Math_round (num_mul 2500 (lit (115 / 100))) = 2875"
  "Math_round (num_div (num_mul 2875 (lit (3 / 10))) 4) = 216"
  "Math_round (num_div (num_mul 2875 (lit (25 / 100))) 9) = 80"
  "Math_round (num_div (num_mul 2875 (lit (45 / 100))) 4) = 323"
  by code_simp+

lemma goal_2500_results:
  "getGoalCalories 2500 Maintain = \<lparr>calories = 2500, protein = 188, carbs = 281, fat = 69\<rparr>"
  "getGoalCalories 2500 Cut = \<lparr>calories = 2000, protein = 150, carbs = 225, fat = 56\<rparr>"
  "getGoalCalories 2500 Bulk = \<lparr>calories = 2875, protein = 216, carbs = 323, fat = 80\<rparr>"
  by (simp_all only: getGoalCalories_def Let_def goalType.distinct if_True if_False simp_thms
      goal_2500_maintain_steps goal_2500_cut_steps goal_2500_bulk_steps)

text \<open>
  Claim C5, as the specification states it, ends with
  \<^verbatim>\<open>getGoalCalories(2500, 'bulk')\<close> = calories 2875, protein 216, fat 80, carbs 324.
  The program returns carbs 323: \<open>2875 * 0.45 = 1293.75\<close> and a quarter of it is
  323.4375, which rounds down.
\<close>

theorem C5_bulk_example_refuted:
  "getGoalCalories 2500 Bulk \<noteq> \<lparr>calories = 2875, protein = 216, carbs = 324, fat = 80\<rparr>"
  by (simp add: goal_2500_results)

text \<open>
  Claim C5, amended: for every maintenance value and goal, the target is the maintenance
  value for maintain, \<open>round(maintenance * 0.8)\<close> for cut and
  \<open>round(maintenance * 1.15)\<close> for bulk; the result has calories = target,
  protein = \<open>round(target * 0.3 / 4)\<close>, fat = \<open>round(target * 0.25 / 9)\<close> and
  carbs = \<open>round(target * 0.45 / 4)\<close>, each rounded from the unrounded fraction of
  the target. For 2500 the results are 2500, 188, 69, 281 (maintain), 2000, 150, 56, 225
  (cut) and 2875, 216, 80, 323 (bulk; calories, protein, fat, carbs).
\<close>

theorem C5_getGoalCalories:
  "(let target = (case goal of
                    Cut \<Rightarrow> Math_round (num_mul maintenance (lit (8 / 10)))
                  | Bulk \<Rightarrow> Math_round (num_mul maintenance (lit (115 / 100)))
                  | Maintain \<Rightarrow> maintenance);
        r = getGoalCalories maintenance goal
    in calories r = target \<and>
       protein r = Math_round (num_div (num_mul target (lit (3 / 10))) 4) \<and>
       fat r = Math_round (num_div (num_mul target (lit (25 / 100))) 9) \<and>
       carbs r = Math_round (num_div (num_mul target (lit (45 / 100))) 4)) \<and>
   getGoalCalories 2500 Maintain = \<lparr>calories = 2500, protein = 188, carbs = 281, fat = 69\<rparr> \<and>
   getGoalCalories 2500 Cut = \<lparr>calories = 2000, protein = 150, carbs = 225, fat = 56\<rparr> \<and>
   getGoalCalories 2500 Bulk = \<lparr>calories = 2875, protein = 216, carbs = 323, fat = 80\<rparr>"
proof -
  have "let target = (case goal of
                    Cut \<Rightarrow> Math_round (num_mul maintenance (lit (8 / 10)))
                  | Bulk \<Rightarrow> Math_round (num_mul maintenance (lit (115 / 100)))
                  | Maintain \<Rightarrow> maintenance);
        r = getGoalCalories maintenance goal
    in calories r = target \<and>
       protein r = Math_round (num_div (num_mul target (lit (3 / 10))) 4) \<and>
       fat r = Math_round (num_div (num_mul target (lit (25 / 100))) 9) \<and>
       carbs r = Math_round (num_div (num_mul target (lit (45 / 100))) 4)"
    by (cases goal) (simp_all add: getGoalCalories_def Let_def)
  then show ?thesis
    by (simp only: goal_2500_results simp_thms)
qed

text \<open>
  The rounding of a product shows in the result: \<open>2570 * 1.15\<close> is 2955.5 in exact
  arithmetic, which \<^verbatim>\<open>Math.round\<close> would send to 2956, but the product of the two
  doubles is the double just below 2955.5, and the bulk target for 2570 is 2955.
\<close>

lemma bulk_2570_steps:
  "num_mul 2570 (lit (115 / 100)) < 5911 / 2"
  "Math_round (num_mul 2570 (lit (115 / 100))) = 2955"
  by code_simp+

lemma bulk_2570_calories: "calories (getGoalCalories 2570 Bulk) = 2955"
  by (simp only: getGoalCalories_def Let_def goalType.distinct if_True if_False simp_thms
      bulk_2570_steps GoalCalorieResult.select_convs)

section \<open>Integral results\<close>

lemma Math_round_Ints: "Math_round x \<in> \<int>"
  by (simp add: Math_round_def)





section \<open>Values that arithmetic leaves exact\<close>

text \<open>
  A rational with at most \<open>j\<close> binary places and magnitude below \<open>2^(53-j)\<close>
  is a double: rounding returns it unchanged.
\<close>

lemma to_double_dyadic:
  assumes "x * 2 ^ j \<in> \<int>" and "\<bar>x\<bar> < 2 ^ (53 - j)" and "j \<le> 53"
  shows "to_double x = x"
proof (cases "x = 0")
  case True
  then show ?thesis by (simp add: to_double_def)
next
  case False
  define e where "e = exponent \<bar>x\<bar>"
  have pos: "0 < \<bar>x\<bar>" using False by simp
  have "(2::rat) ^ (53 - j) = 2 powi (int (53 - j))" by simp
  also have "int (53 - j) = 53 - int j" using assms(3) by simp
  finally have lt: "\<bar>x\<bar> < 2 powi (53 - int j)" using assms(2) by simp
  have "(2::rat) powi (53 - int j) \<le> 2 powi e" if "53 - int j \<le> e"
    using that by (rule power_int_increasing) simp
  with exponent_bounds(1) [OF pos] lt have e: "e \<le> 52 - int j"
    unfolding e_def by fastforce
  define k where "k = nat (52 - e)"
  have jk: "j \<le> k" using e by (simp add: k_def)
  have "ulp x = 2 powi (- int k)" using e by (simp add: ulp_def e_def k_def)
  then have u: "ulp x = 1 / 2 ^ k" by (simp add: power_int_minus divide_inverse)
  from assms(1) obtain n where n: "x * 2 ^ j = of_int n" by (auto elim: Ints_cases)
  have "x / ulp x = x * 2 ^ k" unfolding u by simp
  also have "\<dots> = x * 2 ^ j * 2 ^ (k - j)"
    using jk by (simp add: power_add [symmetric])
  also have "\<dots> = of_int (n * 2 ^ (k - j))" unfolding n by simp
  finally have "x / ulp x \<in> \<int>" by (simp only: Ints_of_int)
  then show ?thesis by (rule to_double_exact)
qed

lemma to_double_quarters:
  assumes "x * 4 \<in> \<int>" and "\<bar>x\<bar> < 2 ^ 51"
  shows "to_double x = x"
  using to_double_dyadic [of x 2] assms by simp

text \<open>
  For integer inputs of moderate size every intermediate value of \<^verbatim>\<open>calculateBMR\<close>
  is a multiple of a quarter, so no operation rounds and the result is the value of the
  Mifflin-St Jeor formula in exact arithmetic.
\<close>

lemma calculateBMR_exact:
  assumes "w \<in> \<int>" "h \<in> \<int>" "a \<in> \<int>"
    and "\<bar>w\<bar> \<le> 2 ^ 40" "\<bar>h\<bar> \<le> 2 ^ 40" "\<bar>a\<bar> \<le> 2 ^ 40"
  shows "calculateBMR w h a male = 10 * w + 25 / 4 * h - 5 * a + 5"
    and "calculateBMR w h a female = 10 * w + 25 / 4 * h - 5 * a - 161"
proof -
  have four: "(4::rat) \<in> \<int>" "(10::rat) \<in> \<int>" "(25::rat) \<in> \<int>" "(5::rat) \<in> \<int>"
    "(161::rat) \<in> \<int>" "(20::rat) \<in> \<int>" "(40::rat) \<in> \<int>" "(644::rat) \<in> \<int>"
    by simp_all
  have A: "num_mul 10 w = 10 * w"
    unfolding num_mul_def
  proof (rule to_double_quarters)
    have "10 * w * 4 = 40 * w" by simp
    then show "10 * w * 4 \<in> \<int>" using assms(1) four by (simp only: Ints_mult)
    show "\<bar>10 * w\<bar> < 2 ^ 51" using assms(4) by (simp add: abs_mult)
  qed
  have B: "num_mul (lit (625 / 100)) h = 25 / 4 * h"
    unfolding num_mul_def lit_exact
  proof (rule to_double_quarters)
    have "25 / 4 * h * 4 = 25 * h" by simp
    then show "25 / 4 * h * 4 \<in> \<int>" using assms(2) four by (simp only: Ints_mult)
    show "\<bar>25 / 4 * h\<bar> < 2 ^ 51" using assms(5) by (simp add: abs_mult)
  qed
  have C: "num_add (10 * w) (25 / 4 * h) = 10 * w + 25 / 4 * h"
    unfolding num_add_def
  proof (rule to_double_quarters)
    have "(10 * w + 25 / 4 * h) * 4 = 40 * w + 25 * h" by (simp add: algebra_simps)
    then show "(10 * w + 25 / 4 * h) * 4 \<in> \<int>"
      using assms(1,2) four by (simp only: Ints_mult Ints_add)
    show "\<bar>10 * w + 25 / 4 * h\<bar> < 2 ^ 51" using assms(4,5) by (simp add: abs_if split: if_splits)
  qed
  have D: "num_mul 5 a = 5 * a"
    unfolding num_mul_def
  proof (rule to_double_quarters)
    have "5 * a * 4 = 20 * a" by simp
    then show "5 * a * 4 \<in> \<int>" using assms(3) four by (simp only: Ints_mult)
    show "\<bar>5 * a\<bar> < 2 ^ 51" using assms(6) by (simp add: abs_mult)
  qed
  have E: "num_sub (10 * w + 25 / 4 * h) (5 * a) = 10 * w + 25 / 4 * h - 5 * a"
    unfolding num_sub_def
  proof (rule to_double_quarters)
    have "(10 * w + 25 / 4 * h - 5 * a) * 4 = 40 * w + 25 * h - 20 * a" by (simp add: algebra_simps)
    then show "(10 * w + 25 / 4 * h - 5 * a) * 4 \<in> \<int>"
      using assms(1,2,3) four by (simp only: Ints_mult Ints_add Ints_diff)
    show "\<bar>10 * w + 25 / 4 * h - 5 * a\<bar> < 2 ^ 51"
      using assms(4,5,6) by (simp add: abs_if split: if_splits)
  qed
  have F: "num_add (10 * w + 25 / 4 * h - 5 * a) 5 = 10 * w + 25 / 4 * h - 5 * a + 5"
    unfolding num_add_def
  proof (rule to_double_quarters)
    have "(10 * w + 25 / 4 * h - 5 * a + 5) * 4 = 40 * w + 25 * h - 20 * a + 20"
      by (simp add: algebra_simps)
    then show "(10 * w + 25 / 4 * h - 5 * a + 5) * 4 \<in> \<int>"
      using assms(1,2,3) four by (simp only: Ints_mult Ints_add Ints_diff)
    show "\<bar>10 * w + 25 / 4 * h - 5 * a + 5\<bar> < 2 ^ 51"
      using assms(4,5,6) by (simp add: abs_if split: if_splits)
  qed
  have G: "num_sub (10 * w + 25 / 4 * h - 5 * a) 161 = 10 * w + 25 / 4 * h - 5 * a - 161"
    unfolding num_sub_def
  proof (rule to_double_quarters)
    have "(10 * w + 25 / 4 * h - 5 * a - 161) * 4 = 40 * w + 25 * h - 20 * a - 644"
      by (simp add: algebra_simps)
    then show "(10 * w + 25 / 4 * h - 5 * a - 161) * 4 \<in> \<int>"
      using assms(1,2,3) four by (simp only: Ints_mult Ints_add Ints_diff)
    show "\<bar>10 * w + 25 / 4 * h - 5 * a - 161\<bar> < 2 ^ 51"
      using assms(4,5,6) by (simp add: abs_if split: if_splits)
  qed
  show "calculateBMR w h a male = 10 * w + 25 / 4 * h - 5 * a + 5"
    by (simp only: calculateBMR_def if_True A B C D E F simp_thms)
  show "calculateBMR w h a female = 10 * w + 25 / 4 * h - 5 * a - 161"
    by (simp only: calculateBMR_def gender.distinct if_False A B C D E G simp_thms)
qed


section \<open>The formulas of the calculator\<close>

lemma female_60_165_25_bmr: "calculateBMR 60 165 25 female = 5381 / 4"
  by code_simp

text \<open>
  Claim C2: for every weight, height, age and gender, \<^verbatim>\<open>calculateBMR\<close> returns
  \<open>10 * weight + 6.25 * height - 5 * age + 5\<close> for male and
  \<open>10 * weight + 6.25 * height - 5 * age - 161\<close> for female, with no call of
  \<^verbatim>\<open>Math.round\<close> and no failure: the function is total, and its value is the
  expression evaluated with the operators of JavaScript numbers. For integer inputs up to
  \<open>2^40\<close> that value is the formula's value in exact arithmetic, and for
  60 kg, 165 cm, 25 years, female it is 1345.25, not an integer.
\<close>

theorem C2_calculateBMR:
  "calculateBMR w h a male =
     num_add (num_sub (num_add (num_mul 10 w) (num_mul (lit (625 / 100)) h)) (num_mul 5 a)) 5 \<and>
   calculateBMR w h a female =
     num_sub (num_sub (num_add (num_mul 10 w) (num_mul (lit (625 / 100)) h)) (num_mul 5 a)) 161 \<and>
   (w \<in> \<int> \<and> h \<in> \<int> \<and> a \<in> \<int> \<and> \<bar>w\<bar> \<le> 2 ^ 40 \<and> \<bar>h\<bar> \<le> 2 ^ 40 \<and> \<bar>a\<bar> \<le> 2 ^ 40 \<longrightarrow>
      calculateBMR w h a male = 10 * w + 25 / 4 * h - 5 * a + 5 \<and>
      calculateBMR w h a female = 10 * w + 25 / 4 * h - 5 * a - 161) \<and>
   calculateBMR 60 165 25 female = 5381 / 4"
proof -
  have "calculateBMR w h a male =
     num_add (num_sub (num_add (num_mul 10 w) (num_mul (lit (625 / 100)) h)) (num_mul 5 a)) 5"
    by (simp only: calculateBMR_def if_True simp_thms)
  moreover have "calculateBMR w h a female =
     num_sub (num_sub (num_add (num_mul 10 w) (num_mul (lit (625 / 100)) h)) (num_mul 5 a)) 161"
    by (simp only: calculateBMR_def gender.distinct if_False simp_thms)
  ultimately show ?thesis
    using calculateBMR_exact [of w h a] female_60_165_25_bmr by blast
qed

theorem C2_calculateBMR_witness:
  "(70 :: rat) \<in> \<int> \<and> (175 :: rat) \<in> \<int> \<and> (40 :: rat) \<in> \<int> \<and>
   \<bar>70 :: rat\<bar> \<le> 2 ^ 40 \<and> \<bar>175 :: rat\<bar> \<le> 2 ^ 40 \<and> \<bar>40 :: rat\<bar> \<le> 2 ^ 40 \<and>
   calculateBMR 70 175 40 male = 6395 / 4 \<and>
   calculateBMR 70 175 40 female = 5731 / 4"
  using C2_calculateBMR [of 70 175 40] by simp

text \<open>
  Claim C3: for every \<^verbatim>\<open>UserDetails\<close>, maintenance calories are
  \<open>round(bmr * multiplier)\<close> with the multiplier 1.2, 1.375, 1.55, 1.725 or 1.9 of the
  activity level and the BMR of the same details; cut calories are
  \<open>round(maintenance * 0.8)\<close> and bulk calories \<open>round(maintenance * 1.15)\<close>.
\<close>

theorem C3_maintenance_cut_bulk:
  "(let r = calculateCalories details;
        bmr = calculateBMR (weight details) (height details) (age details) (gender details);
        multiplier = (case activity_level details of
                        sedentary \<Rightarrow> lit (12 / 10)
                      | lightly_active \<Rightarrow> lit (1375 / 1000)
                      | moderately_active \<Rightarrow> lit (155 / 100)
                      | very_active \<Rightarrow> lit (1725 / 1000)
                      | extra_active \<Rightarrow> lit (19 / 10))
    in maintenance_calories r = Math_round (num_mul bmr multiplier) \<and>
       cut_calories r = Math_round (num_mul (maintenance_calories r) (lit (8 / 10))) \<and>
       bulk_calories r = Math_round (num_mul (maintenance_calories r) (lit (115 / 100))))"
  by (cases "activity_level details") (simp_all add: calculateCalories_def Let_def)

text \<open>The call for 20 kg, 100 cm, 100 years, female, sedentary.\<close>

lemma female_20_100_100_bmr: "calculateBMR 20 100 100 female = 164"
  by code_simp

lemma female_20_100_100_steps:
  "Math_round (num_mul 164 (lit (12 / 10))) = 197"
  "Math_round (num_mul 197 (lit (8 / 10))) = 158"
  "Math_round (num_mul 197 (lit (115 / 100))) = 227"
  "Math_round (num_mul 20 2) = 40"
  "Math_round (num_mul 197 (lit (25 / 100))) = 49"
  "Math_round (num_div 49 9) = 5"
  "num_mul 40 4 = 160"
  "num_sub (num_sub 197 160) 49 = - 12"
  "Math_round (num_div (- 12) 4) = - 3"
  by code_simp+

lemma female_20_100_100_result:
  "calculateCalories \<lparr>height = 100, weight = 20, age = 100, gender = female,
     activity_level = sedentary\<rparr> =
   \<lparr>maintenance_calories = 197, cut_calories = 158, bulk_calories = 227,
     protein_grams = 40, carbs_grams = - 3, fat_grams = 5\<rparr>"
  by (simp only: calculateCalories_def Let_def UserDetails.select_convs
      ACTIVITY_MULTIPLIERS.simps female_20_100_100_bmr female_20_100_100_steps)

text \<open>
  Claim C4: for every \<^verbatim>\<open>UserDetails\<close>, protein grams are \<open>round(weight * 2)\<close>;
  fat calories are \<open>round(maintenance * 0.25)\<close> and fat grams
  \<open>round(fat_calories / 9)\<close>, rounded a second time from the rounded fat calories;
  carbohydrate calories are the remainder
  \<open>maintenance - protein_grams * 4 - fat_calories\<close>, not clamped, and carbohydrate
  grams \<open>round(carb_calories / 4)\<close> are returned as they are, negative for some
  inputs: -3 for 20 kg, 100 cm, 100 years, female, sedentary.
\<close>

theorem C4_macro_split:
  "(let r = calculateCalories details;
        maintenance = maintenance_calories r;
        fatCalories = Math_round (num_mul maintenance (lit (25 / 100)));
        proteinCalories = num_mul (protein_grams r) 4;
        carbCalories = num_sub (num_sub maintenance proteinCalories) fatCalories
    in protein_grams r = Math_round (num_mul (weight details) 2) \<and>
       fat_grams r = Math_round (num_div fatCalories 9) \<and>
       carbs_grams r = Math_round (num_div carbCalories 4)) \<and>
   carbs_grams (calculateCalories \<lparr>height = 100, weight = 20, age = 100, gender = female,
     activity_level = sedentary\<rparr>) = - 3"
proof -
  have "let r = calculateCalories details;
        maintenance = maintenance_calories r;
        fatCalories = Math_round (num_mul maintenance (lit (25 / 100)));
        proteinCalories = num_mul (protein_grams r) 4;
        carbCalories = num_sub (num_sub maintenance proteinCalories) fatCalories
    in protein_grams r = Math_round (num_mul (weight details) 2) \<and>
       fat_grams r = Math_round (num_div fatCalories 9) \<and>
       carbs_grams r = Math_round (num_div carbCalories 4)"
    by (simp add: calculateCalories_def Let_def)
  moreover have "carbs_grams (calculateCalories \<lparr>height = 100, weight = 20, age = 100,
     gender = female, activity_level = sedentary\<rparr>) = - 3"
    by (simp only: female_20_100_100_result CalorieResults.select_convs)
  ultimately show ?thesis by blast
qed


section \<open>Monotonicity\<close>

text \<open>
  Rounding to a double and \<^verbatim>\<open>Math.round\<close> are monotone, so every operator of
  the calculator is monotone in an argument that enters positively.
\<close>

lemma Math_round_mono: "x \<le> y \<Longrightarrow> Math_round x \<le> Math_round y"
  unfolding Math_round_def by (simp add: floor_mono)

lemma Math_round_of_int: "Math_round (of_int n) = of_int n"
proof -
  have "\<lfloor>rat_of_int n + 1 / 2\<rfloor> = n" by linarith
  then show ?thesis by (simp only: Math_round_def)
qed

lemma to_double_lower:
  assumes "of_int n \<le> x" and "\<bar>n\<bar> < 2 ^ 53"
  shows "of_int n \<le> to_double x"
  using to_double_mono [OF assms(1)] to_double_of_int [OF assms(2)] by simp

lemma to_double_upper:
  assumes "x \<le> of_int n" and "\<bar>n\<bar> < 2 ^ 53"
  shows "to_double x \<le> of_int n"
  using to_double_mono [OF assms(1)] to_double_of_int [OF assms(2)] by simp





lemma ACTIVITY_MULTIPLIERS_bounds:
  "1 \<le> ACTIVITY_MULTIPLIERS l" "ACTIVITY_MULTIPLIERS l \<le> 2"
proof -
  have "1 \<le> ACTIVITY_MULTIPLIERS l \<and> ACTIVITY_MULTIPLIERS l \<le> 2"
  proof (cases l)
    case sedentary
    have "1 \<le> lit (12 / 10) \<and> lit (12 / 10) \<le> 2" by code_simp
    with sedentary show ?thesis by simp
  next
    case lightly_active
    have "1 \<le> lit (1375 / 1000) \<and> lit (1375 / 1000) \<le> 2" by code_simp
    with lightly_active show ?thesis by simp
  next
    case moderately_active
    have "1 \<le> lit (155 / 100) \<and> lit (155 / 100) \<le> 2" by code_simp
    with moderately_active show ?thesis by simp
  next
    case very_active
    have "1 \<le> lit (1725 / 1000) \<and> lit (1725 / 1000) \<le> 2" by code_simp
    with very_active show ?thesis by simp
  next
    case extra_active
    have "1 \<le> lit (19 / 10) \<and> lit (19 / 10) \<le> 2" by code_simp
    with extra_active show ?thesis by simp
  qed
  then show "1 \<le> ACTIVITY_MULTIPLIERS l" "ACTIVITY_MULTIPLIERS l \<le> 2" by simp_all
qed


lemma maintenance_calories_eq:
  "maintenance_calories (calculateCalories d) =
   Math_round (num_mul (calculateBMR (weight d) (height d) (age d) (gender d))
     (ACTIVITY_MULTIPLIERS (activity_level d)))"
  by (simp add: calculateCalories_def Let_def)







section \<open>Validated details\<close>

text \<open>
  From 10 on, an integer below \<open>2^52\<close> lies strictly between its cut and its bulk
  value: \<open>m * 0.8\<close> is at most \<open>m - 1\<close> and \<open>m * 1.15\<close> at least \<open>m + 1\<close>,
  and the integers \<open>m - 1\<close> and \<open>m + 1\<close> are doubles.
\<close>

lemma lit_cut_bulk_bounds:
  "lit (8 / 10) \<le> 9 / 10" "11 / 10 \<le> lit (115 / 100)"
  by code_simp+

lemma cut_bulk_strict:
  fixes n :: int
  assumes "10 \<le> n" and "n < 2 ^ 52"
  shows "Math_round (num_mul (of_int n) (lit (8 / 10))) < of_int n"
    and "of_int n < Math_round (num_mul (of_int n) (lit (115 / 100)))"
proof -
  have n: "(10::rat) \<le> of_int n"
    using assms(1) by (metis of_int_le_iff of_int_numeral)
  have "rat_of_int n * lit (8 / 10) \<le> of_int n * (9 / 10)"
    using lit_cut_bulk_bounds(1) n by (intro mult_left_mono) simp_all
  also have "\<dots> \<le> of_int (n - 1)" using n by simp
  finally have le: "rat_of_int n * lit (8 / 10) \<le> of_int (n - 1)" .
  have "\<bar>n - 1\<bar> < 2 ^ 53" using assms by simp
  with le have "num_mul (of_int n) (lit (8 / 10)) \<le> of_int (n - 1)"
    unfolding num_mul_def by (rule to_double_upper)
  then have "Math_round (num_mul (of_int n) (lit (8 / 10))) \<le> Math_round (of_int (n - 1))"
    by (rule Math_round_mono)
  also have "\<dots> = of_int (n - 1)" by (rule Math_round_of_int)
  also have "\<dots> < rat_of_int n" by simp
  finally show "Math_round (num_mul (of_int n) (lit (8 / 10))) < of_int n" .
  have "rat_of_int (n + 1) \<le> of_int n * (11 / 10)" using n by simp
  also have "\<dots> \<le> of_int n * lit (115 / 100)"
    using lit_cut_bulk_bounds(2) n by (intro mult_left_mono) simp_all
  finally have ge: "rat_of_int (n + 1) \<le> of_int n * lit (115 / 100)" .
  have "\<bar>n + 1\<bar> < 2 ^ 53" using assms by simp
  with ge have "of_int (n + 1) \<le> num_mul (of_int n) (lit (115 / 100))"
    unfolding num_mul_def by (rule to_double_lower)
  then have "Math_round (of_int (n + 1)) \<le> Math_round (num_mul (of_int n) (lit (115 / 100)))"
    by (rule Math_round_mono)
  moreover have "rat_of_int n < of_int (n + 1)" by simp
  then have "of_int n < Math_round (rat_of_int (n + 1))"
    by (simp only: Math_round_of_int)
  ultimately show "of_int n < Math_round (num_mul (of_int n) (lit (115 / 100)))"
    by (rule less_le_trans [rotated])
qed

text \<open>
  On the validated ranges the BMR lies between 264 and 4503, the maintenance calories
  between 264 and 9006.
\<close>

lemma valid_bmr_bounds:
  assumes "100 \<le> h" "h \<le> 250" "30 \<le> w" "w \<le> 300" "13 \<le> a" "a \<le> 100"
  shows "264 \<le> calculateBMR w h a g" and "calculateBMR w h a g \<le> 4503"
proof -
  define A where "A = num_mul 10 w"
  define B where "B = num_mul (lit (625 / 100)) h"
  define C where "C = num_add A B"
  define D where "D = num_mul 5 a"
  define E where "E = num_sub C D"
  have A: "300 \<le> A" "A \<le> 3000"
    unfolding A_def num_mul_def
    using to_double_lower [of 300 "10 * w"] to_double_upper [of "10 * w" 3000] assms
    by simp_all
  have B: "625 \<le> B" "B \<le> 1563"
    unfolding B_def num_mul_def lit_exact
    using to_double_lower [of 625 "25 / 4 * h"] to_double_upper [of "25 / 4 * h" 1563] assms
    by simp_all
  have C: "925 \<le> C" "C \<le> 4563"
    unfolding C_def num_add_def
    using to_double_lower [of 925 "A + B"] to_double_upper [of "A + B" 4563] A B
    by simp_all
  have D: "65 \<le> D" "D \<le> 500"
    unfolding D_def num_mul_def
    using to_double_lower [of 65 "5 * a"] to_double_upper [of "5 * a" 500] assms
    by simp_all
  have E: "425 \<le> E" "E \<le> 4498"
    unfolding E_def num_sub_def
    using to_double_lower [of 425 "C - D"] to_double_upper [of "C - D" 4498] C D
    by simp_all
  have m: "430 \<le> num_add E 5" "num_add E 5 \<le> 4503"
    unfolding num_add_def
    using to_double_lower [of 430 "E + 5"] to_double_upper [of "E + 5" 4503] E
    by simp_all
  have f: "264 \<le> num_sub E 161" "num_sub E 161 \<le> 4337"
    unfolding num_sub_def
    using to_double_lower [of 264 "E - 161"] to_double_upper [of "E - 161" 4337] E
    by simp_all
  have bmr: "calculateBMR w h a g = (if g = male then num_add E 5 else num_sub E 161)"
    unfolding E_def D_def C_def B_def A_def by (simp only: calculateBMR_def)
  show "264 \<le> calculateBMR w h a g" and "calculateBMR w h a g \<le> 4503"
    unfolding bmr using m f by (simp_all split: if_splits)
qed

lemma valid_maintenance:
  assumes "valid_details d"
  obtains n :: int where "maintenance_calories (calculateCalories d) = of_int n"
    and "264 \<le> n" and "n \<le> 9006"
proof -
  define bmr where "bmr = calculateBMR (weight d) (height d) (age d) (gender d)"
  define mult where "mult = ACTIVITY_MULTIPLIERS (activity_level d)"
  define G where "G = num_mul bmr mult"
  have bmr: "264 \<le> bmr" "bmr \<le> 4503"
    unfolding bmr_def using assms by (simp_all add: valid_details_def valid_bmr_bounds)
  have mult: "1 \<le> mult" "mult \<le> 2"
    unfolding mult_def by (rule ACTIVITY_MULTIPLIERS_bounds)+
  have "bmr \<le> bmr * mult"
    using mult_left_mono [of 1 mult bmr] bmr(1) mult(1) by simp
  then have lo: "264 \<le> bmr * mult" using bmr(1) by linarith
  have "bmr * mult \<le> 4503 * 2"
    using bmr mult by (intro mult_mono) simp_all
  then have hi: "bmr * mult \<le> 9006" by simp
  have G: "264 \<le> G" "G \<le> 9006"
    unfolding G_def num_mul_def
    using to_double_lower [of 264 "bmr * mult"] to_double_upper [of "bmr * mult" 9006] lo hi
    by simp_all
  define n where "n = \<lfloor>G + 1 / 2\<rfloor>"
  have m: "maintenance_calories (calculateCalories d) = of_int n"
    unfolding maintenance_calories_eq n_def G_def bmr_def mult_def Math_round_def ..
  have "264 \<le> n" "n \<le> 9006"
    unfolding n_def using G by linarith+
  with m show ?thesis by (rule that)
qed

text \<open>
  Claim C7: for every valid \<^verbatim>\<open>UserDetails\<close> (height 100 to 250, weight 30 to 300,
  age 13 to 100, gender and activity level among the literals), \<^verbatim>\<open>calculateCalories\<close>
  returns six integers, and whenever the maintenance calories are positive, cut calories
  are strictly below and bulk calories strictly above them. The maintenance calories of
  valid details are always positive.
\<close>

theorem C7_valid_details_ordering:
  assumes "valid_details d"
  shows "maintenance_calories (calculateCalories d) \<in> \<int> \<and>
         cut_calories (calculateCalories d) \<in> \<int> \<and>
         bulk_calories (calculateCalories d) \<in> \<int> \<and>
         protein_grams (calculateCalories d) \<in> \<int> \<and>
         carbs_grams (calculateCalories d) \<in> \<int> \<and>
         fat_grams (calculateCalories d) \<in> \<int> \<and>
         0 < maintenance_calories (calculateCalories d) \<and>
         (0 < maintenance_calories (calculateCalories d) \<longrightarrow>
            cut_calories (calculateCalories d) < maintenance_calories (calculateCalories d) \<and>
            maintenance_calories (calculateCalories d) < bulk_calories (calculateCalories d))"
proof -
  have ints: "maintenance_calories (calculateCalories d) \<in> \<int>"
    "cut_calories (calculateCalories d) \<in> \<int>"
    "bulk_calories (calculateCalories d) \<in> \<int>"
    "protein_grams (calculateCalories d) \<in> \<int>"
    "carbs_grams (calculateCalories d) \<in> \<int>"
    "fat_grams (calculateCalories d) \<in> \<int>"
    by (simp_all add: calculateCalories_def Let_def Math_round_Ints)
  from assms obtain n :: int
    where n: "maintenance_calories (calculateCalories d) = of_int n" "264 \<le> n" "n \<le> 9006"
    by (rule valid_maintenance)
  have cut: "cut_calories (calculateCalories d) =
      Math_round (num_mul (maintenance_calories (calculateCalories d)) (lit (8 / 10)))"
    and bulk: "bulk_calories (calculateCalories d) =
      Math_round (num_mul (maintenance_calories (calculateCalories d)) (lit (115 / 100)))"
    by (simp_all add: calculateCalories_def Let_def)
  have pos: "0 < maintenance_calories (calculateCalories d)"
    unfolding n(1) using n(2) by simp
  have "10 \<le> n" "n < 2 ^ 52" using n(2,3) by simp_all
  then have "cut_calories (calculateCalories d) < maintenance_calories (calculateCalories d)"
    "maintenance_calories (calculateCalories d) < bulk_calories (calculateCalories d)"
    unfolding cut bulk unfolding n(1) by (rule cut_bulk_strict)+
  with ints pos show ?thesis by blast
qed

theorem C7_valid_details_ordering_witness:
  "valid_details \<lparr>height = 180, weight = 80, age = 30, gender = male,
     activity_level = moderately_active\<rparr> \<and>
   (0 :: rat) < 2759 \<and>
   calculateCalories \<lparr>height = 180, weight = 80, age = 30, gender = male,
     activity_level = moderately_active\<rparr> =
   \<lparr>maintenance_calories = 2759, cut_calories = 2207, bulk_calories = 3173,
     protein_grams = 160, carbs_grams = 357, fat_grams = 77\<rparr> \<and>
   cut_calories (calculateCalories \<lparr>height = 180, weight = 80, age = 30, gender = male,
     activity_level = moderately_active\<rparr>)
     < maintenance_calories (calculateCalories \<lparr>height = 180, weight = 80, age = 30,
         gender = male, activity_level = moderately_active\<rparr>) \<and>
   maintenance_calories (calculateCalories \<lparr>height = 180, weight = 80, age = 30,
     gender = male, activity_level = moderately_active\<rparr>)
     < bulk_calories (calculateCalories \<lparr>height = 180, weight = 80, age = 30,
         gender = male, activity_level = moderately_active\<rparr>) \<and>
   fat_grams (calculateCalories \<lparr>height = 180, weight = 80, age = 30,
         gender = male, activity_level = moderately_active\<rparr>) \<in> \<int>"
proof -
  have v: "valid_details \<lparr>height = 180, weight = 80, age = 30, gender = male,
     activity_level = moderately_active\<rparr>"
    by (simp add: valid_details_def)
  show ?thesis
    using v C7_valid_details_ordering [OF v]
    by (simp add: male_80_180_30_result)
qed


section \<open>Ties and determinism\<close>










end
